theory Spec2Isabelle
  imports Complex_Main
begin

section \<open>Python exceptions\<close>

text \<open>
  The exceptions the modelled code can raise. A function that can raise returns a pair:
  the outcome (\<open>Inl\<close> the exception, \<open>Inr\<close> the returned value) and the state as the
  exception leaves it, since Python keeps every mutation made before the raise.
\<close>

datatype py_error = KeyError | StopIteration | IndexError

section \<open>performance\_tuning.py: LRUCache\<close>

subsection \<open>collections.OrderedDict\<close>

text \<open>
  An \<open>OrderedDict\<close> is a list of key/value pairs with distinct keys, oldest first.
\<close>

type_synonym ('k, 'v) odict = "('k \<times> 'v) list"

definition od_contains :: "'k \<Rightarrow> ('k, 'v) odict \<Rightarrow> bool" where
  "od_contains key od = (map_of od key \<noteq> None)"

definition od_del :: "'k \<Rightarrow> ('k, 'v) odict \<Rightarrow> ('k, 'v) odict" where
  "od_del key od = filter (\<lambda>kv. fst kv \<noteq> key) od"

fun od_set :: "'k \<Rightarrow> 'v \<Rightarrow> ('k, 'v) odict \<Rightarrow> ('k, 'v) odict" where
  "od_set key v [] = [(key, v)]"
| "od_set key v (kv # od) = (if fst kv = key then (key, v) # od else kv # od_set key v od)"

definition move_to_end :: "'k \<Rightarrow> ('k, 'v) odict \<Rightarrow> py_error + ('k, 'v) odict" where
  "move_to_end key od =
     (case map_of od key of
        None \<Rightarrow> Inl KeyError
      | Some v \<Rightarrow> Inr (od_del key od @ [(key, v)]))"

subsection \<open>The cache\<close>

text \<open>
  Time is the reading of \<open>datetime.now()\<close> in microseconds; each operation takes the
  reading it makes as an argument. A Python value that may be \<open>None\<close> is an \<open>option\<close>:
  the cache stores such values, and \<open>get\<close> returns one.
\<close>

record ('k, 'v) LRUCache =
  max_size :: int
  ttl_seconds :: int
  cache :: "('k, 'v option) odict"
  timestamps :: "'k \<rightharpoonup> int"
  cache_hits :: nat
  cache_misses :: nat

definition new_cache :: "int \<Rightarrow> int \<Rightarrow> ('k, 'v) LRUCache" where
  "new_cache ms ttl =
     \<lparr>max_size = ms, ttl_seconds = ttl, cache = [], timestamps = Map.empty,
      cache_hits = 0, cache_misses = 0\<rparr>"

definition is_expired :: "int \<Rightarrow> 'k \<Rightarrow> ('k, 'v) LRUCache \<Rightarrow> bool" where
  "is_expired now key c =
     (case timestamps c key of
        None \<Rightarrow> True
      | Some t \<Rightarrow> now - t > ttl_seconds c * 1000000)"

definition get ::
  "int \<Rightarrow> 'k \<Rightarrow> ('k, 'v) LRUCache \<Rightarrow> (py_error + 'v option) \<times> ('k, 'v) LRUCache" where
  "get now key c =
     (if \<not> od_contains key (cache c) \<or> is_expired now key c then
        (let c1 = c\<lparr>cache_misses := cache_misses c + 1\<rparr> in
         if od_contains key (cache c1) then
           (let c2 = c1\<lparr>cache := od_del key (cache c1)\<rparr> in
            case timestamps c2 key of
              None \<Rightarrow> (Inl KeyError, c2)
            | Some t \<Rightarrow> (Inr None, c2\<lparr>timestamps := (timestamps c2)(key := None)\<rparr>))
         else (Inr None, c1))
      else
        (case move_to_end key (cache c) of
           Inl e \<Rightarrow> (Inl e, c)
         | Inr od \<Rightarrow>
             (let c1 = c\<lparr>cache := od\<rparr>;
                  c2 = c1\<lparr>cache_hits := cache_hits c1 + 1\<rparr>
              in case map_of (cache c2) key of
                   None \<Rightarrow> (Inl KeyError, c2)
                 | Some v \<Rightarrow> (Inr v, c2))))"

definition store ::
  "int \<Rightarrow> 'k \<Rightarrow> 'v option \<Rightarrow> ('k, 'v) LRUCache \<Rightarrow> ('k, 'v) LRUCache" where
  \<comment> \<open>the last two statements of \<open>put\<close>\<close>
  "store now key v c =
     c\<lparr>cache := od_set key v (cache c), timestamps := (timestamps c)(key \<mapsto> now)\<rparr>"

definition put ::
  "int \<Rightarrow> 'k \<Rightarrow> 'v option \<Rightarrow> ('k, 'v) LRUCache \<Rightarrow> (py_error + unit) \<times> ('k, 'v) LRUCache" where
  "put now key v c =
     (if od_contains key (cache c) then
        (Inr (), store now key v (c\<lparr>cache := od_del key (cache c)\<rparr>))
      else if int (length (cache c)) \<ge> max_size c then
        (case cache c of
           [] \<Rightarrow> (Inl KeyError, c)
         | popped # rest \<Rightarrow>
             (let c1 = c\<lparr>cache := rest\<rparr> in
              case cache c1 of
                [] \<Rightarrow> (Inl StopIteration, c1)
              | first # others \<Rightarrow>
                  (let removed_key = fst first;
                       c2 = (if timestamps c1 removed_key \<noteq> None
                             then c1\<lparr>timestamps := (timestamps c1)(removed_key := None)\<rparr>
                             else c1)
                   in (Inr (), store now key v c2))))
      else (Inr (), store now key v c))"

text \<open>A run of \<open>put\<close> calls, stopping at the first exception.\<close>

fun puts ::
  "int \<Rightarrow> ('k \<times> 'v option) list \<Rightarrow> ('k, 'v) LRUCache \<Rightarrow> (py_error + unit) \<times> ('k, 'v) LRUCache" where
  "puts now [] c = (Inr (), c)"
| "puts now (kv # kvs) c =
     (case put now (fst kv) (snd kv) c of
        (Inl e, c1) \<Rightarrow> (Inl e, c1)
      | (Inr u, c1) \<Rightarrow> puts now kvs c1)"

subsection \<open>The decorator cache\_result\<close>



section \<open>Python strings\<close>

text \<open>
  A \<open>str\<close> is a list of characters. Case mapping and the character classes are those
  of ASCII; any other character is left as it is and belongs to no class.
\<close>

definition upper_letters :: string where
  "upper_letters = ''ABCDEFGHIJKLMNOPQRSTUVWXYZ''"

definition lower_letters :: string where
  "lower_letters = ''abcdefghijklmnopqrstuvwxyz''"

definition digits :: string where
  "digits = ''0123456789''"

definition lower_char :: "char \<Rightarrow> char" where
  "lower_char c = (case map_of (zip upper_letters lower_letters) c of Some d \<Rightarrow> d | None \<Rightarrow> c)"

definition upper_char :: "char \<Rightarrow> char" where
  "upper_char c = (case map_of (zip lower_letters upper_letters) c of Some d \<Rightarrow> d | None \<Rightarrow> c)"

definition lower :: "string \<Rightarrow> string" where
  "lower s = map lower_char s"

definition upper :: "string \<Rightarrow> string" where
  "upper s = map upper_char s"

definition is_space :: "char \<Rightarrow> bool" where
  \<comment> \<open>\<open>str.isspace\<close>: tab, line feed, vertical tab, form feed, carriage return,
     the four separators 0x1C..0x1F and the space\<close>
  "is_space c = (c \<in> set [CHR 0x09, CHR 0x0A, CHR 0x0B, CHR 0x0C, CHR 0x0D,
                           CHR 0x1C, CHR 0x1D, CHR 0x1E, CHR 0x1F, CHR 0x20])"

fun startswith :: "string \<Rightarrow> string \<Rightarrow> bool" where
  "startswith s [] = True"
| "startswith [] (p # ps) = False"
| "startswith (c # s) (p # ps) = (c = p \<and> startswith s ps)"

fun py_in :: "string \<Rightarrow> string \<Rightarrow> bool" where
  \<comment> \<open>\<open>p in s\<close> on strings: \<open>p\<close> occurs in \<open>s\<close> as a substring\<close>
  "py_in p [] = (p = [])"
| "py_in p (c # s) = (startswith (c # s) p \<or> py_in p s)"

fun split_from :: "string \<Rightarrow> string \<Rightarrow> string list" where
  \<comment> \<open>\<open>str.split()\<close> with the word read so far\<close>
  "split_from w [] = (if w = [] then [] else [w])"
| "split_from w (c # s) =
     (if is_space c then (if w = [] then split_from [] s else w # split_from [] s)
      else split_from (w @ [c]) s)"

definition py_split :: "string \<Rightarrow> string list" where
  "py_split s = split_from [] s"

function replace_braced :: "string \<Rightarrow> string \<Rightarrow> string \<Rightarrow> string" where
  \<comment> \<open>\<open>response.replace("{" + key + "}", value)\<close>: every occurrence, left to right\<close>
  "replace_braced key v [] = []"
| "replace_braced key v (c # s) =
     (if startswith (c # s) (CHR ''{'' # key @ ''}'')
      then v @ replace_braced key v (drop (Suc (length key)) s)
      else c # replace_braced key v s)"
  by pat_completeness auto
termination
  by (relation "measure (\<lambda>(key, v, s). length s)") auto

section \<open>intent\_classifier.py\<close>

text \<open>
  One entry of \<open>data/intents.json\<close>. The file is not part of the sources: the list of
  intents is a parameter of everything below.
\<close>

record intent =
  tag :: string
  patterns :: "string list"
  responses :: "string list"

text \<open>
  Scores are Python floats that only ever hold multiples of 0.5, which floats add
  exactly; they are real numbers here, and so is the confidence.
\<close>

definition pattern_score :: "string \<Rightarrow> string \<Rightarrow> real" where
  \<comment> \<open>what one pattern adds to the score of its intent\<close>
  "pattern_score user_input_lower pattern =
     (let pattern_lower = lower pattern in
      if py_in pattern_lower user_input_lower then 2
      else (let pattern_words = py_split pattern_lower;
                matched_words = length (filter (\<lambda>word. py_in word user_input_lower) pattern_words)
            in real matched_words * (1 / 2)))"

definition intent_score :: "string \<Rightarrow> intent \<Rightarrow> real" where
  \<comment> \<open>the inner loop: the score starts at 0 and each pattern adds to it\<close>
  "intent_score user_input_lower it =
     fold (\<lambda>pattern sc. sc + pattern_score user_input_lower pattern) (patterns it) 0"

definition intent_scores :: "intent list \<Rightarrow> string \<Rightarrow> (string, real) odict" where
  \<comment> \<open>the outer loop: a dict keeps a key where it was first inserted, and assigning to
     a tag seen before overwrites its score\<close>
  "intent_scores intents user_input_lower =
     fold (\<lambda>it d. od_set (tag it) (intent_score user_input_lower it) d) intents []"

fun first_max :: "('k \<times> real) \<Rightarrow> ('k \<times> real) list \<Rightarrow> 'k \<times> real" where
  \<comment> \<open>\<open>max(d, key=d.get)\<close>: a later item replaces the best one only when strictly greater\<close>
  "first_max best [] = best"
| "first_max best (kv # rest) =
     (if snd kv > snd best then first_max kv rest else first_max best rest)"

definition classify :: "intent list \<Rightarrow> string \<Rightarrow> string \<times> real" where
  \<comment> \<open>\<open>max(intent_scores.values())\<close> is the fold of \<open>max\<close> over the values; the keys of a
     dict are distinct, so \<open>intent_scores[best_intent]\<close> is the value paired with the
     best key\<close>
  "classify intents user_input =
     (let user_input_lower = lower user_input;
          scores = intent_scores intents user_input_lower
      in case scores of
           [] \<Rightarrow> (''greeting'', 3 / 10)
         | kv # rest \<Rightarrow>
             if fold max (map snd rest) (snd kv) = 0 then (''greeting'', 3 / 10)
             else (let best = first_max kv rest
                   in (fst best, min (snd best / 10) 1)))"

section \<open>ir\_based\_qa.py\<close>

text \<open>
  The TF-IDF vectorizer and the cosine similarity are scikit-learn's. \<open>similarity\<close>
  stands for \<open>cosine_similarity(vectorizer.transform([query]), question_vectors)[0]\<close>:
  the similarity of the query to each question, or \<open>None\<close> when the library raises.
  Similarities are real numbers here. \<open>argsort\<close> is numpy's: the indices in ascending
  order of their values, equal values keeping their order (the insertion sort numpy
  runs on a short array).
\<close>

record IRBasedQA =
  questions :: "string list"
  answers :: "string list"
  similarity :: "string \<Rightarrow> real list option"

record hit =
  question :: string
  answer :: string
  score :: real

definition argsort :: "real list \<Rightarrow> nat list" where
  "argsort similarities = sort_key (\<lambda>i. similarities ! i) [0..<length similarities]"

definition py_take :: "int \<Rightarrow> 'a list \<Rightarrow> 'a list" where
  \<comment> \<open>the slice \<open>xs[:k]\<close>; a negative \<open>k\<close> counts from the end\<close>
  "py_take k xs = (if 0 \<le> k then take (nat k) xs else take (nat (int (length xs) + k)) xs)"

definition top_indices :: "real list \<Rightarrow> int \<Rightarrow> nat list" where
  "top_indices similarities top_k = py_take top_k (rev (argsort similarities))"

definition hit_at :: "IRBasedQA \<Rightarrow> real list \<Rightarrow> nat \<Rightarrow> hit" where
  \<comment> \<open>the dict appended for the document at \<open>idx\<close>\<close>
  "hit_at qa similarities idx =
     \<lparr>question = questions qa ! idx, answer = answers qa ! idx, score = similarities ! idx\<rparr>"

fun collect :: "IRBasedQA \<Rightarrow> real list \<Rightarrow> nat list \<Rightarrow> py_error + hit list" where
  \<comment> \<open>the loop over \<open>top_indices\<close>; reading a question or an answer out of range raises\<close>
  "collect qa similarities [] = Inr []"
| "collect qa similarities (idx # rest) =
     (if similarities ! idx > 1 / 10 then
        (if idx < length (questions qa) \<and> idx < length (answers qa) then
           (case collect qa similarities rest of
              Inl e \<Rightarrow> Inl e
            | Inr results \<Rightarrow>
                Inr (hit_at qa similarities idx # results))
         else Inl IndexError)
      else collect qa similarities rest)"

definition retrieve :: "IRBasedQA \<Rightarrow> string \<Rightarrow> int \<Rightarrow> hit list" where
  \<comment> \<open>the bare \<open>except\<close> turns every exception into the empty list\<close>
  "retrieve qa query top_k =
     (case similarity qa query of
        None \<Rightarrow> []
      | Some similarities \<Rightarrow>
          (case collect qa similarities (top_indices similarities top_k) of
             Inl e \<Rightarrow> []
           | Inr results \<Rightarrow> results))"



section \<open>order\_tracker.py\<close>

record order =
  order_id :: string
  customer_id :: string
  status :: string
  delivery_date :: string

fun get_order :: "order list \<Rightarrow> string \<Rightarrow> order option" where
  "get_order [] oid = None"
| "get_order (ord # rest) oid =
     (if upper (order_id ord) = upper oid then Some ord else get_order rest oid)"

fun cancel_order :: "order list \<Rightarrow> string \<Rightarrow> bool \<times> order list" where
  \<comment> \<open>returns the result and the store; a matching order that is not eligible does not
     end the loop\<close>
  "cancel_order [] oid = (False, [])"
| "cancel_order (ord # rest) oid =
     (if upper (order_id ord) = upper oid then
        (if status ord \<in> set [''pending'', ''processing'']
         then (True, ord\<lparr>status := ''cancelled''\<rparr> # rest)
         else (case cancel_order rest oid of (r, rest') \<Rightarrow> (r, ord # rest')))
      else (case cancel_order rest oid of (r, rest') \<Rightarrow> (r, ord # rest')))"

section \<open>response\_generator.py\<close>

definition response_map :: "intent list \<Rightarrow> (string \<rightharpoonup> string list)" where
  "response_map intents = fold (\<lambda>it m. m(tag it \<mapsto> responses it)) intents Map.empty"

definition not_understood :: string where
  "not_understood = ''I'' @ [CHR 0x27] @ ''m sorry, I didn'' @ [CHR 0x27]
     @ ''t understand that. Can you please rephrase?''"

definition choice :: "nat \<Rightarrow> 'a list \<Rightarrow> py_error + 'a" where
  \<comment> \<open>\<open>random.choice\<close>: the random source is the number \<open>rnd\<close>; an empty list raises\<close>
  "choice rnd xs = (if xs = [] then Inl IndexError else Inr (xs ! (rnd mod length xs)))"

definition generate ::
  "intent list \<Rightarrow> nat \<Rightarrow> string \<Rightarrow> (string \<times> string) list \<Rightarrow> py_error + string" where
  \<comment> \<open>\<open>entities\<close> is the list of the dict's items, empty for \<open>None\<close>\<close>
  "generate intents rnd intent_tag entities =
     (case response_map intents intent_tag of
        None \<Rightarrow> Inr not_understood
      | Some rs \<Rightarrow>
          (case choice rnd rs of
             Inl e \<Rightarrow> Inl e
           | Inr response \<Rightarrow>
               Inr (fold (\<lambda>kv r. replace_braced (fst kv) (snd kv) r) entities response)))"

section \<open>dialogue\_system.py\<close>

subsection \<open>The regular expression of \_extract\_order\_id\<close>

text \<open>
  The pattern \<^verbatim>\<open>order\s*(?:id)?:?\s*([A-Z0-9]+)\<close> is a sequence of items of four kinds: a
  literal, an optional literal, a greedy star of a character class and the capturing
  group, a greedy plus of a character class. \<open>re\<close> matches by backtracking: each item
  tries its alternatives in its order of preference (greedy: the longest first, an
  optional item present first), and the first complete match wins. \<open>step\<close> lists the
  alternatives of one item in that order, so the matches of the whole pattern at a
  position come out in the order backtracking finds them.
\<close>

datatype char_class = Space | UpperDigit

datatype item = Lit string | OptLit string | StarOf char_class | CapturePlus char_class

definition char_eq :: "bool \<Rightarrow> char \<Rightarrow> char \<Rightarrow> bool" where
  "char_eq ignorecase c p = (c = p \<or> (ignorecase \<and> lower_char c = lower_char p))"

fun class_match :: "bool \<Rightarrow> char_class \<Rightarrow> char \<Rightarrow> bool" where
  "class_match ignorecase Space c = is_space c"
| "class_match ignorecase UpperDigit c =
     (c \<in> set (upper_letters @ digits)
      \<or> (ignorecase \<and> upper_char c \<in> set (upper_letters @ digits)))"

fun lit_match :: "bool \<Rightarrow> string \<Rightarrow> string \<Rightarrow> bool" where
  "lit_match ignorecase s [] = True"
| "lit_match ignorecase [] (p # ps) = False"
| "lit_match ignorecase (c # s) (p # ps) = (char_eq ignorecase c p \<and> lit_match ignorecase s ps)"

definition run_length :: "bool \<Rightarrow> char_class \<Rightarrow> string \<Rightarrow> nat" where
  "run_length ignorecase cls s = length (takeWhile (class_match ignorecase cls) s)"

text \<open>A state of the matcher: the text not yet consumed, and group 1 once it is set.\<close>

type_synonym mstate = "string \<times> string option"

fun step :: "bool \<Rightarrow> item \<Rightarrow> mstate \<Rightarrow> mstate list" where
  "step ignorecase (Lit w) (s, g) =
     (if lit_match ignorecase s w then [(drop (length w) s, g)] else [])"
| "step ignorecase (OptLit w) (s, g) =
     (if lit_match ignorecase s w then [(drop (length w) s, g)] else []) @ [(s, g)]"
| "step ignorecase (StarOf cls) (s, g) =
     map (\<lambda>k. (drop k s, g)) (rev [0..<Suc (run_length ignorecase cls s)])"
| "step ignorecase (CapturePlus cls) (s, g) =
     map (\<lambda>k. (drop k s, Some (take k s))) (rev [1..<Suc (run_length ignorecase cls s)])"

definition match_at :: "bool \<Rightarrow> item list \<Rightarrow> string \<Rightarrow> mstate list" where
  "match_at ignorecase items s =
     fold (\<lambda>it sts. concat (map (step ignorecase it) sts)) items [(s, None)]"

fun search :: "bool \<Rightarrow> item list \<Rightarrow> string \<Rightarrow> string option option" where
  \<comment> \<open>\<open>re.search\<close>: the first match at the leftmost position that has one; the result
     is group 1 of the match\<close>
  "search ignorecase items [] =
     (case match_at ignorecase items [] of [] \<Rightarrow> None | st # sts \<Rightarrow> Some (snd st))"
| "search ignorecase items (c # s) =
     (case match_at ignorecase items (c # s) of
        [] \<Rightarrow> search ignorecase items s
      | st # sts \<Rightarrow> Some (snd st))"

definition order_id_pattern :: "item list" where
  "order_id_pattern =
     [Lit ''order'', StarOf Space, OptLit ''id'', OptLit '':'', StarOf Space,
      CapturePlus UpperDigit]"

definition extract_order_id :: "string \<Rightarrow> string option" where
  \<comment> \<open>\<open>match.group(1) if match else None\<close>\<close>
  "extract_order_id text_in =
     (case search True order_id_pattern text_in of None \<Rightarrow> None | Some g \<Rightarrow> g)"

subsection \<open>What the pattern accepts\<close>





subsection \<open>The dialogue system\<close>

text \<open>
  An entry of the conversation history: the user's (timestamp, text) or the assistant's
  (timestamp, text, intent, confidence). The two readings of the clock and the random
  source are arguments of \<open>process_input\<close>. The classifier and the response generator
  each hold the intents they loaded.
\<close>

datatype turn = UserTurn string string | AssistantTurn string string string real

record DialogueSystem =
  intent_classifier :: "intent list"
  qa_system :: IRBasedQA
  response_generator :: "intent list"
  order_tracker :: "order list"
  conversation_history :: "turn list"
  user_context :: "string \<rightharpoonup> string"

definition order_not_found :: string where
  "order_not_found = ''I couldn'' @ [CHR 0x27]
     @ ''t find your order. Please provide your order ID.''"

definition unable_to_cancel :: string where
  "unable_to_cancel = ''Unable to cancel this order. It may have already shipped.''"

definition handle_track_order :: "DialogueSystem \<Rightarrow> string \<Rightarrow> string" where
  "handle_track_order ds user_input =
     (case extract_order_id user_input of
        None \<Rightarrow> order_not_found
      | Some oid \<Rightarrow>
          if oid \<noteq> [] then
            (case get_order (order_tracker ds) oid of
               None \<Rightarrow> order_not_found
             | Some ord \<Rightarrow>
                 ''Your order '' @ oid @ '' is '' @ status ord
                   @ ''. Expected delivery: '' @ delivery_date ord)
          else order_not_found)"

definition handle_cancel_item :: "DialogueSystem \<Rightarrow> string \<Rightarrow> string \<times> DialogueSystem" where
  "handle_cancel_item ds user_input =
     (case extract_order_id user_input of
        None \<Rightarrow> (unable_to_cancel, ds)
      | Some oid \<Rightarrow>
          if oid \<noteq> [] then
            (case get_order (order_tracker ds) oid of
               None \<Rightarrow> (unable_to_cancel, ds)
             | Some ord \<Rightarrow>
                 if status ord \<in> set [''pending'', ''processing''] then
                   (case cancel_order (order_tracker ds) oid of
                      (r, store') \<Rightarrow>
                        (''Order '' @ oid @ '' has been cancelled successfully.'',
                         ds\<lparr>order_tracker := store'\<rparr>))
                 else (unable_to_cancel, ds))
          else (unable_to_cancel, ds))"

definition handle_intent ::
  "DialogueSystem \<Rightarrow> nat \<Rightarrow> string \<Rightarrow> string \<Rightarrow> (py_error + string) \<times> DialogueSystem" where
  "handle_intent ds rnd intent_tag user_input =
     (if intent_tag = ''track_order'' then (Inr (handle_track_order ds user_input), ds)
      else if intent_tag = ''cancel_item'' then
        (case handle_cancel_item ds user_input of (response, ds') \<Rightarrow> (Inr response, ds'))
      else if intent_tag = ''greeting'' then
        (generate (response_generator ds) rnd intent_tag [], ds)
      else
        (case retrieve (qa_system ds) user_input 1 of
           h # hs \<Rightarrow> (Inr (answer h), ds)
         | [] \<Rightarrow> (generate (response_generator ds) rnd ''default'' [], ds)))"

definition process_input ::
  "DialogueSystem \<Rightarrow> string \<Rightarrow> string \<Rightarrow> nat \<Rightarrow> string
     \<Rightarrow> (py_error + string) \<times> DialogueSystem" where
  "process_input ds t_user t_assistant rnd user_input =
     (let ds1 = ds\<lparr>conversation_history :=
                     conversation_history ds @ [UserTurn t_user user_input]\<rparr>;
          ic = classify (intent_classifier ds1) user_input
      in case handle_intent ds1 rnd (fst ic) user_input of
           (Inl e, ds2) \<Rightarrow> (Inl e, ds2)
         | (Inr response, ds2) \<Rightarrow>
             (Inr response,
              ds2\<lparr>conversation_history :=
                     conversation_history ds2
                       @ [AssistantTurn t_assistant response (fst ic) (snd ic)]\<rparr>))"

section \<open>Sample data\<close>

text \<open>Small stores and tables on which the results below are evaluated.\<close>

definition ex_orders :: "order list" where
  "ex_orders =
     [\<lparr>order_id = ''ORD001'', customer_id = ''C1'', status = ''pending'',
       delivery_date = ''2024-01-10''\<rparr>,
      \<lparr>order_id = ''ORD002'', customer_id = ''C2'', status = ''shipped'',
       delivery_date = ''2024-01-12''\<rparr>]"


definition ex_intents :: "intent list" where
  "ex_intents =
     [\<lparr>tag = ''greeting'', patterns = [''Hello'', ''Hi there''],
       responses = [''Hello! How can I help you today?'', ''Hi there!'']\<rparr>,
      \<lparr>tag = ''track_order'', patterns = [''track my order'', ''where is my order''],
       responses = [''Let me look up your order.'']\<rparr>,
      \<lparr>tag = ''cancel_item'', patterns = [''cancel order'', ''cancel my order''],
       responses = [''I can help you cancel.'']\<rparr>,
      \<lparr>tag = ''faq'', patterns = [''shipping'', ''return policy''],
       responses = [''Please see our FAQ page.'']\<rparr>]"

definition ex_qa :: IRBasedQA where
  "ex_qa =
     \<lparr>questions = [''How long does shipping take?'', ''How long does delivery take?'',
                   ''What is your return policy?''],
      answers = [''Shipping takes 3-5 business days.'', ''Delivery takes 3-5 business days.'',
                 ''You can return items within 30 days.''],
      similarity = (\<lambda>query. if query = ''how long'' then Some [1 / 2, 1 / 2, 0]
                             else if query = ''What is your return policy?'' then Some [0, 0, 9 / 10]
                             else Some [0, 0, 0])\<rparr>"

definition ex_ds :: DialogueSystem where
  "ex_ds =
     \<lparr>intent_classifier = ex_intents, qa_system = ex_qa, response_generator = ex_intents,
      order_tracker = ex_orders, conversation_history = [], user_context = Map.empty\<rparr>"

section \<open>Results about the cache\<close>

text \<open>
  Claim C1. With capacity 2 and no entry expired, three distinct keys are put once each.
  The claim is that the first key alone is lost and that \<open>get\<close> on the other two returns
  their values. The eviction in \<open>put\<close> pops the oldest entry and then deletes the
  timestamp of the entry that is now first, so the second key stays in the store without
  a timestamp: \<open>get\<close> on it counts a miss, deletes the entry and raises \<open>KeyError\<close>.
\<close>

theorem lru_eviction_breaks_second_key:
  "(case puts 0 [(''a'', Some 1), (''b'', Some 2), (''c'', Some 3)]
           (new_cache 2 3600 :: (string, int) LRUCache) of
      (r, c) \<Rightarrow>
        r = Inr ()
        \<and> map fst (cache c) = [''b'', ''c'']
        \<and> timestamps c ''a'' = Some 0
        \<and> timestamps c ''b'' = None
        \<and> fst (get 0 ''b'' c) = Inl KeyError
        \<and> map fst (cache (snd (get 0 ''b'' c))) = [''c'']
        \<and> fst (get 0 ''c'' c) = Inr (Some 3))"
  by (simp add: new_cache_def put_def store_def get_def od_contains_def od_del_def
      is_expired_def move_to_end_def)

theorem lru_eviction_breaks_second_key_witness:
  "fst (get 0 ''b'' (snd (puts 0 [(''a'', Some 1), (''b'', Some 2), (''c'', Some 3)]
           (new_cache 2 3600 :: (string, int) LRUCache)))) = Inl KeyError"
  using lru_eviction_breaks_second_key by (auto split: prod.splits)








section \<open>Results about the order store\<close>

lemma cancel_order_no_match:
  "\<forall>ord \<in> set xs. upper (order_id ord) \<noteq> upper oid \<Longrightarrow> cancel_order xs oid = (False, xs)"
  by (induction xs) auto

text \<open>
  Claim C4. Order ids identify orders: no two orders of the store have the same id up to
  case. Cancelling an order of the store by its id, in any spelling of its case, succeeds
  when its status is \<open>pending\<close> or \<open>processing\<close>, and then that order, and no other, has
  the status \<open>cancelled\<close>; with any other status it fails and the store is as it was.
\<close>

theorem cancel_order_by_status:
  assumes "distinct (map (\<lambda>ord. upper (order_id ord)) xs)"
    and "i < length xs"
    and "upper oid = upper (order_id (xs ! i))"
  shows "(status (xs ! i) \<in> {''pending'', ''processing''} \<longrightarrow>
            cancel_order xs oid = (True, xs[i := (xs ! i)\<lparr>status := ''cancelled''\<rparr>]))
       \<and> (status (xs ! i) \<notin> {''pending'', ''processing''} \<longrightarrow>
            cancel_order xs oid = (False, xs))"
  using assms
proof (induction xs arbitrary: i)
  case Nil
  then show ?case by simp
next
  case (Cons x xs)
  show ?case
  proof (cases i)
    case 0
    have "\<forall>ord \<in> set xs. upper (order_id ord) \<noteq> upper oid"
      using Cons.prems 0 by (force simp: image_iff)
    then have "cancel_order xs oid = (False, xs)"
      by (rule cancel_order_no_match)
    then show ?thesis using Cons.prems 0 by simp
  next
    case (Suc j)
    have ne: "upper (order_id x) \<noteq> upper oid"
    proof
      assume e: "upper (order_id x) = upper oid"
      have "xs ! j \<in> set xs" using Cons.prems Suc by simp
      then have "upper (order_id (xs ! j)) \<in> (\<lambda>ord. upper (order_id ord)) ` set xs"
        by (rule imageI)
      then show False using Cons.prems Suc e by simp
    qed
    have "distinct (map (\<lambda>ord. upper (order_id ord)) xs)" "j < length xs"
      "upper oid = upper (order_id (xs ! j))"
      using Cons.prems Suc by auto
    from Cons.IH[OF this] show ?thesis using ne Suc by simp
  qed
qed

theorem cancel_order_by_status_witness:
  "cancel_order ex_orders ''ord001'' =
     (True, [\<lparr>order_id = ''ORD001'', customer_id = ''C1'', status = ''cancelled'',
              delivery_date = ''2024-01-10''\<rparr>,
             \<lparr>order_id = ''ORD002'', customer_id = ''C2'', status = ''shipped'',
              delivery_date = ''2024-01-12''\<rparr>])
   \<and> cancel_order ex_orders ''ORD002'' = (False, ex_orders)"
proof -
  have d: "distinct (map (\<lambda>ord. upper (order_id ord)) ex_orders)"
    by (simp add: ex_orders_def upper_def upper_char_def lower_letters_def upper_letters_def)
  have a: "upper ''ord001'' = upper (order_id (ex_orders ! 0))"
    by (simp add: ex_orders_def upper_def upper_char_def lower_letters_def upper_letters_def)
  have b: "upper ''ORD002'' = upper (order_id (ex_orders ! 1))"
    by (simp add: ex_orders_def)
  show ?thesis
    using cancel_order_by_status[OF d _ a] cancel_order_by_status[OF d _ b]
    by (simp add: ex_orders_def)
qed

section \<open>Results about the intent classifier\<close>

lemma fold_add_sum_list:
  "fold (\<lambda>p sc. sc + f p) ps (a::real) = a + sum_list (map f ps)"
  by (induction ps arbitrary: a) simp_all

lemma intent_score_sum:
  "intent_score u it = sum_list (map (pattern_score u) (patterns it))"
  by (simp add: intent_score_def fold_add_sum_list)

lemma pattern_score_nonneg: "0 \<le> pattern_score u p"
  by (simp add: pattern_score_def Let_def)

lemma intent_score_nonneg: "0 \<le> intent_score u it"
  by (auto simp: intent_score_sum intro!: sum_list_nonneg pattern_score_nonneg)

lemma pattern_score_zero:
  assumes "\<not> py_in (lower p) u" and "\<forall>w \<in> set (py_split (lower p)). \<not> py_in w u"
  shows "pattern_score u p = 0"
  using assms by (simp add: pattern_score_def Let_def filter_False)

lemma sum_list_all_zero: "\<forall>x \<in> set xs. f x = (0::real) \<Longrightarrow> sum_list (map f xs) = 0"
  by (induction xs) auto

lemma intent_score_zero:
  assumes "\<forall>p \<in> set (patterns it). \<not> py_in (lower p) u \<and> (\<forall>w \<in> set (py_split (lower p)). \<not> py_in w u)"
  shows "intent_score u it = 0"
proof -
  have "\<forall>p \<in> set (patterns it). pattern_score u p = 0"
    using assms by (auto intro: pattern_score_zero)
  then show ?thesis by (simp add: intent_score_sum sum_list_all_zero)
qed

lemma od_set_values: "snd ` set (od_set k v d) \<subseteq> insert v (snd ` set d)"
  by (induction d) auto

lemma scores_values:
  "snd ` set (fold (\<lambda>it d. od_set (tag it) (f it) d) xs d0) \<subseteq> snd ` set d0 \<union> f ` set xs"
proof (induction xs arbitrary: d0)
  case Nil
  then show ?case by simp
next
  case (Cons x xs)
  have "snd ` set (fold (\<lambda>it d. od_set (tag it) (f it) d) xs (od_set (tag x) (f x) d0))
          \<subseteq> snd ` set (od_set (tag x) (f x) d0) \<union> f ` set xs"
    by (rule Cons.IH)
  also have "\<dots> \<subseteq> insert (f x) (snd ` set d0) \<union> f ` set xs"
    using od_set_values[of "tag x" "f x" d0] by auto
  finally show ?case by auto
qed

lemma fold_max_zero:
  "\<forall>x \<in> set xs. x = (0::real) \<Longrightarrow> fold max xs 0 = 0"
  by (induction xs) simp_all

text \<open>
  Claim C5. When no pattern of any intent occurs in the lower-cased input, neither as a
  whole phrase nor through one of its words, \<open>classify\<close> returns the intent \<open>greeting\<close>
  with confidence 0.3; and so it does for every input when no intent is defined.
\<close>

theorem classify_fallback:
  "((\<forall>it \<in> set its. \<forall>p \<in> set (patterns it).
        \<not> py_in (lower p) (lower user_input)
        \<and> (\<forall>w \<in> set (py_split (lower p)). \<not> py_in w (lower user_input)))
      \<longrightarrow> classify its user_input = (''greeting'', 3 / 10))
   \<and> classify [] user_input = (''greeting'', 3 / 10)"
proof (intro conjI impI)
  show "classify [] user_input = (''greeting'', 3 / 10)"
    by (simp add: classify_def intent_scores_def)
next
  assume a: "\<forall>it \<in> set its. \<forall>p \<in> set (patterns it).
        \<not> py_in (lower p) (lower user_input)
        \<and> (\<forall>w \<in> set (py_split (lower p)). \<not> py_in w (lower user_input))"
  let ?u = "lower user_input"
  have z: "\<forall>it \<in> set its. intent_score ?u it = 0"
    using a by (auto intro: intent_score_zero)
  have "snd ` set (intent_scores its ?u) \<subseteq> intent_score ?u ` set its"
    using scores_values[of "intent_score ?u" its "[]"] by (simp add: intent_scores_def)
  then have vals: "\<forall>kv \<in> set (intent_scores its ?u). snd kv = 0"
    using z by auto
  show "classify its user_input = (''greeting'', 3 / 10)"
  proof (cases "intent_scores its ?u")
    case Nil
    then show ?thesis by (simp add: classify_def)
  next
    case (Cons kv rest)
    have "snd kv = 0" and "\<forall>x \<in> set (map snd rest). x = 0"
      using vals Cons by auto
    then have "fold max (map snd rest) (snd kv) = 0"
      using fold_max_zero by simp
    then show ?thesis using Cons by (simp add: classify_def)
  qed
qed


theorem classify_fallback_witness:
  "classify ex_intents ''zzz'' = (''greeting'', 3 / 10)"
proof -
  have "\<forall>it \<in> set ex_intents. \<forall>p \<in> set (patterns it).
        \<not> py_in (lower p) (lower ''zzz'')
        \<and> (\<forall>w \<in> set (py_split (lower p)). \<not> py_in w (lower ''zzz''))"
    by code_simp
  then show ?thesis using classify_fallback[of ex_intents "''zzz''"] by blast
qed

lemma od_set_fresh: "k \<notin> fst ` set d \<Longrightarrow> od_set k v d = d @ [(k, v)]"
  by (induction d) auto

lemma scores_distinct:
  "distinct (map fst d0 @ map tag xs) \<Longrightarrow>
   fold (\<lambda>it d. od_set (tag it) (f it) d) xs d0 = d0 @ map (\<lambda>it. (tag it, f it)) xs"
proof (induction xs arbitrary: d0)
  case Nil
  then show ?case by simp
next
  case (Cons x xs)
  have fresh: "tag x \<notin> fst ` set d0" using Cons.prems by auto
  have "distinct (map fst (d0 @ [(tag x, f x)]) @ map tag xs)"
    using Cons.prems by auto
  from Cons.IH[OF this] show ?case by (simp add: od_set_fresh[OF fresh])
qed

lemma intent_scores_distinct:
  "distinct (map tag its) \<Longrightarrow>
   intent_scores its u = map (\<lambda>it. (tag it, intent_score u it)) its"
  using scores_distinct[of "[]" its "intent_score u"] by (simp add: intent_scores_def)

lemma first_max_keep:
  "\<forall>kv \<in> set rest. snd kv \<le> snd best \<Longrightarrow> first_max best rest = best"
  by (induction rest) auto

lemma first_max_at:
  assumes "i < length rest"
    and "\<forall>j < length rest. snd (rest ! j) \<le> snd (rest ! i)"
    and "\<forall>j < i. snd (rest ! j) < snd (rest ! i)"
    and "snd best < snd (rest ! i)"
  shows "first_max best rest = rest ! i"
  using assms
proof (induction rest arbitrary: best i)
  case Nil
  then show ?case by simp
next
  case (Cons kv rest)
  show ?case
  proof (cases i)
    case 0
    have "\<forall>x \<in> set rest. snd x \<le> snd kv"
    proof
      fix x assume "x \<in> set rest"
      then obtain j where "j < length rest" "rest ! j = x" by (auto simp: in_set_conv_nth)
      then show "snd x \<le> snd kv" using Cons.prems(2) 0 by (auto dest: spec[of _ "Suc j"])
    qed
    then have "first_max kv rest = kv" by (rule first_max_keep)
    then show ?thesis using Cons.prems 0 by simp
  next
    case (Suc i')
    have lt: "snd kv < snd (rest ! i')" using Cons.prems(3) Suc by (auto dest: spec[of _ 0])
    have a1: "i' < length rest" using Cons.prems Suc by simp
    have a2: "\<forall>j < length rest. snd (rest ! j) \<le> snd (rest ! i')"
      using Cons.prems(2) Suc by (auto dest: spec[of _ "Suc j" for j])
    have a3: "\<forall>j < i'. snd (rest ! j) < snd (rest ! i')"
      using Cons.prems(3) Suc by (auto dest: spec[of _ "Suc j" for j])
    show ?thesis
    proof (cases "snd kv > snd best")
      case True
      then show ?thesis using Cons.IH[OF a1 a2 a3 lt] Suc by simp
    next
      case False
      have "snd best < snd (rest ! i')" using Cons.prems(4) Suc by simp
      then show ?thesis using Cons.IH[OF a1 a2 a3] False Suc by simp
    qed
  qed
qed

lemma fold_max_ge: "(a::real) \<le> fold max xs a"
proof (induction xs arbitrary: a)
  case Nil
  then show ?case by simp
next
  case (Cons x xs)
  have "a \<le> max x a" by simp
  also have "\<dots> \<le> fold max xs (max x a)" by (rule Cons.IH)
  finally show ?case by simp
qed

lemma fold_max_ge_elem: "x \<in> set xs \<Longrightarrow> (x::real) \<le> fold max xs a"
proof (induction xs arbitrary: a)
  case Nil
  then show ?case by simp
next
  case (Cons y ys)
  show ?case
  proof (cases "x = y")
    case True
    have "x \<le> max y a" using True by simp
    also have "\<dots> \<le> fold max ys (max y a)" by (rule fold_max_ge)
    finally show ?thesis by simp
  next
    case False
    then have "x \<in> set ys" using Cons.prems by simp
    then show ?thesis using Cons.IH by simp
  qed
qed

lemma classify_first_maximum:
  assumes "distinct (map tag its)"
    and "i < length its"
    and "\<forall>j < length its. intent_score (lower user_input) (its ! j)
                             \<le> intent_score (lower user_input) (its ! i)"
    and "\<forall>j < i. intent_score (lower user_input) (its ! j)
                    < intent_score (lower user_input) (its ! i)"
    and "0 < intent_score (lower user_input) (its ! i)"
  shows "classify its user_input =
           (tag (its ! i), min (intent_score (lower user_input) (its ! i) / 10) 1)"
proof -
  let ?u = "lower user_input"
  let ?sc = "map (\<lambda>it. (tag it, intent_score ?u it)) its"
  have sc: "intent_scores its ?u = ?sc"
    using assms(1) by (rule intent_scores_distinct)
  obtain it0 rest0 where its: "its = it0 # rest0"
    using assms(2) by (cases its) auto
  let ?kv = "(tag it0, intent_score ?u it0)"
  let ?rest = "map (\<lambda>it. (tag it, intent_score ?u it)) rest0"
  have sc': "intent_scores its ?u = ?kv # ?rest" using sc its by simp
  have best: "first_max ?kv ?rest = ?sc ! i"
  proof (cases i)
    case 0
    have "\<forall>kv \<in> set ?rest. snd kv \<le> snd ?kv"
    proof
      fix kv assume "kv \<in> set ?rest"
      then obtain j where "j < length rest0" "kv = ?rest ! j" by (auto simp: in_set_conv_nth)
      then show "snd kv \<le> snd ?kv" using assms(3) its 0 by (auto dest: spec[of _ "Suc j"])
    qed
    then have "first_max ?kv ?rest = ?kv" by (rule first_max_keep)
    then show ?thesis using 0 its by simp
  next
    case (Suc i')
    have b1: "i' < length ?rest" using assms(2) its Suc by simp
    have b2: "\<forall>j < length ?rest. snd (?rest ! j) \<le> snd (?rest ! i')"
      using assms(3) its Suc b1 by (auto dest: spec[of _ "Suc j" for j])
    have b3: "\<forall>j < i'. snd (?rest ! j) < snd (?rest ! i')"
      using assms(4) its Suc b1 by (auto dest: spec[of _ "Suc j" for j])
    have b4: "snd ?kv < snd (?rest ! i')"
      using assms(4) its Suc b1 by (auto dest: spec[of _ 0])
    have "first_max ?kv ?rest = ?rest ! i'" by (rule first_max_at[OF b1 b2 b3 b4])
    then show ?thesis using Suc its by simp
  qed
  have "intent_score ?u (its ! i) \<in> set (map snd ?sc)"
    using assms(2) by (auto simp: in_set_conv_nth intro!: exI[of _ i])
  then have "intent_score ?u (its ! i) \<le> fold max (map snd ?rest) (snd ?kv)"
    using its fold_max_ge[of "snd ?kv" "map snd ?rest"] fold_max_ge_elem[of _ "map snd ?rest" "snd ?kv"]
    by auto
  then have nz: "fold max (map snd ?rest) (snd ?kv) \<noteq> 0"
    using assms(5) by simp
  show ?thesis
    using sc' best nz assms(2) by (simp add: classify_def Let_def)
qed


text \<open>
  Claim C6, as stated, says that whenever several intents share the maximum score the
  earliest registered of them is returned. When that maximum is 0 the classifier returns
  its fallback instead: here all four intents score 0, \<open>faq\<close> is registered first, and the
  result is \<open>greeting\<close>, registered last.
\<close>

theorem classify_tie_at_zero_counterexample:
  "map tag (rev ex_intents) = [''faq'', ''cancel_item'', ''track_order'', ''greeting'']
   \<and> map (intent_score (lower ''zzz'')) (rev ex_intents) = [0, 0, 0, 0]
   \<and> classify (rev ex_intents) ''zzz'' = (''greeting'', 3 / 10)"
  by code_simp

text \<open>
  Claim C6, amended. The tags being distinct, let an intent score more than 0, more than
  every intent registered before it and at least as much as every intent registered after
  it: it is the earliest intent with the maximum score, whether or not later ones tie
  with it. Then \<open>classify\<close> returns its tag, with a tenth of its score, at most 1, as the
  confidence.
\<close>

theorem classify_tie_earliest:
  assumes "distinct (map tag (before @ it # after))"
    and "\<forall>x \<in> set before. intent_score (lower user_input) x < intent_score (lower user_input) it"
    and "\<forall>x \<in> set after. intent_score (lower user_input) x \<le> intent_score (lower user_input) it"
    and "0 < intent_score (lower user_input) it"
  shows "classify (before @ it # after) user_input =
           (tag it, min (intent_score (lower user_input) it / 10) 1)"
proof -
  let ?its = "before @ it # after"
  let ?i = "length before"
  have i: "?i < length ?its" and at: "?its ! ?i = it" by simp_all
  have le: "\<forall>j < length ?its. intent_score (lower user_input) (?its ! j)
                             \<le> intent_score (lower user_input) (?its ! ?i)"
  proof (intro allI impI)
    fix j assume "j < length ?its"
    then have "?its ! j \<in> set ?its" by (rule nth_mem)
    then have "?its ! j \<in> set before \<or> ?its ! j = it \<or> ?its ! j \<in> set after" by auto
    then show "intent_score (lower user_input) (?its ! j)
                 \<le> intent_score (lower user_input) (?its ! ?i)"
      using assms(2,3) at by (auto simp del: nth_append_length intro: less_imp_le)
  qed
  have lt: "\<forall>j < ?i. intent_score (lower user_input) (?its ! j)
                    < intent_score (lower user_input) (?its ! ?i)"
    using assms(2) by (simp add: nth_append)
  show ?thesis
    using classify_first_maximum[OF assms(1) i le lt] assms(4) by simp
qed

theorem classify_tie_earliest_witness:
  "classify ex_intents ''order'' = (''track_order'', 1 / 10)"
proof -
  have d: "ex_intents = [ex_intents ! 0] @ (ex_intents ! 1) # [ex_intents ! 2, ex_intents ! 3]"
    by (simp add: ex_intents_def)
  have a1: "distinct (map tag ([ex_intents ! 0] @ (ex_intents ! 1) # [ex_intents ! 2, ex_intents ! 3]))"
    by (simp add: ex_intents_def)
  have s: "intent_score (lower ''order'') (ex_intents ! 0) = 0"
     "intent_score (lower ''order'') (ex_intents ! 1) = 1"
     "intent_score (lower ''order'') (ex_intents ! 2) = 1"
     "intent_score (lower ''order'') (ex_intents ! 3) = 0"
    by code_simp+
  have t: "tag (ex_intents ! 1) = ''track_order''" by (simp add: ex_intents_def)
  show ?thesis
    using classify_tie_earliest[of "[ex_intents ! 0]" "ex_intents ! 1" "[ex_intents ! 2, ex_intents ! 3]" "''order''"]
      a1 s t d by simp
qed

section \<open>Results about the retriever\<close>


















section \<open>Results about the extraction of the order id\<close>
































section \<open>Results about the dialogue system\<close>

lemma handle_track_order_nonempty: "handle_track_order ds user_input \<noteq> []"
  by (simp add: handle_track_order_def order_not_found_def split: option.splits)

lemma handle_cancel_item_frame:
  "fst (handle_cancel_item ds user_input) \<noteq> []
   \<and> conversation_history (snd (handle_cancel_item ds user_input)) = conversation_history ds
   \<and> user_context (snd (handle_cancel_item ds user_input)) = user_context ds"
  by (simp add: handle_cancel_item_def unable_to_cancel_def split: option.splits prod.splits)

lemma generate_registered:
  assumes "response_map its tg = Some rs" and "rs \<noteq> []"
  shows "generate its rnd tg [] = Inr (rs ! (rnd mod length rs))"
  using assms by (simp add: generate_def choice_def)

lemma generate_unregistered:
  assumes "response_map its tg = None"
  shows "generate its rnd tg [] = Inr not_understood"
  using assms by (simp add: generate_def)

lemma collect_answers:
  "collect qa s idxs = Inr hs \<Longrightarrow> \<forall>h \<in> set hs. answer h \<in> set (answers qa)"
  by (induction idxs arbitrary: hs) (auto simp: hit_at_def split: if_splits sum.splits)

lemma retrieve_answers:
  assumes "h \<in> set (retrieve qa query k)"
  shows "answer h \<in> set (answers qa)"
proof (cases "similarity qa query")
  case None
  then show ?thesis using assms by (simp add: retrieve_def)
next
  case (Some s)
  show ?thesis
  proof (cases "collect qa s (top_indices s k)")
    case (Inl e)
    then show ?thesis using assms Some by (simp add: retrieve_def)
  next
    case (Inr hs)
    then have "h \<in> set hs" using assms Some by (simp add: retrieve_def)
    then show ?thesis using collect_answers[OF Inr] by blast
  qed
qed

text \<open>
  Claim C2, as stated, sends every intent with registered templates, other than
  \<open>track_order\<close> and \<open>cancel_item\<close>, to the response generator. The dispatch names
  \<open>greeting\<close> only: the intent \<open>faq\<close> has a registered template, and a text classified as
  \<open>faq\<close> is answered by the retriever.
\<close>

theorem faq_intent_not_templated_counterexample:
  "classify ex_intents ''What is your return policy?'' = (''faq'', 1 / 5)
   \<and> response_map ex_intents ''faq'' = Some [''Please see our FAQ page.'']
   \<and> fst (process_input ex_ds ''t1'' ''t2'' 0 ''What is your return policy?'')
        = Inr ''You can return items within 30 days.''"
  by code_simp

text \<open>
  Claim C2, amended. A text classified as \<open>greeting\<close>, that intent having a non-empty list
  of registered templates, is answered by the template the random source picks, and each
  template of the list is picked by some value of the random source. A text classified
  as any intent other than \<open>track_order\<close>, \<open>cancel_item\<close> and \<open>greeting\<close>, with or without
  registered templates, is answered by the answer of the retriever's best hit, or, when
  there is no hit, by what the response generator gives for \<open>default\<close>.
\<close>

theorem process_input_routing:
  "(fst (classify (intent_classifier ds) user_input) = ''greeting''
      \<and> response_map (response_generator ds) ''greeting'' = Some rs \<and> rs \<noteq> []
     \<longrightarrow> fst (process_input ds t_user t_assistant rnd user_input)
           = Inr (rs ! (rnd mod length rs))
         \<and> rs ! (rnd mod length rs) \<in> set rs
         \<and> (\<forall>i < length rs. fst (process_input ds t_user t_assistant i user_input) = Inr (rs ! i)))
   \<and> (fst (classify (intent_classifier ds) user_input)
          \<notin> {''track_order'', ''cancel_item'', ''greeting''}
     \<longrightarrow> fst (process_input ds t_user t_assistant rnd user_input)
           = (case retrieve (qa_system ds) user_input 1 of
                h # hs \<Rightarrow> Inr (answer h)
              | [] \<Rightarrow> generate (response_generator ds) rnd ''default'' []))"
proof (intro conjI impI)
  assume a: "fst (classify (intent_classifier ds) user_input) = ''greeting''
      \<and> response_map (response_generator ds) ''greeting'' = Some rs \<and> rs \<noteq> []"
  have g: "generate (response_generator ds) r ''greeting'' [] = Inr (rs ! (r mod length rs))" for r
    using a by (intro generate_registered) simp_all
  show "fst (process_input ds t_user t_assistant rnd user_input) = Inr (rs ! (rnd mod length rs))"
    using a g by (simp add: process_input_def handle_intent_def Let_def)
  show "rs ! (rnd mod length rs) \<in> set rs"
    using a by simp
  show "\<forall>i < length rs. fst (process_input ds t_user t_assistant i user_input) = Inr (rs ! i)"
    using a g by (simp add: process_input_def handle_intent_def Let_def)
next
  assume b: "fst (classify (intent_classifier ds) user_input)
          \<notin> {''track_order'', ''cancel_item'', ''greeting''}"
  show "fst (process_input ds t_user t_assistant rnd user_input)
           = (case retrieve (qa_system ds) user_input 1 of
                h # hs \<Rightarrow> Inr (answer h)
              | [] \<Rightarrow> generate (response_generator ds) rnd ''default'' [])"
    using b
    by (auto simp: process_input_def handle_intent_def Let_def split: list.splits sum.splits)
qed


theorem process_input_routing_witness:
  "fst (process_input ex_ds ''t1'' ''t2'' 1 ''Hello'') = Inr ''Hi there!''
   \<and> fst (process_input ex_ds ''t1'' ''t2'' 0 ''What is your return policy?'')
        = Inr ''You can return items within 30 days.''"
proof -
  have c1: "fst (classify (intent_classifier ex_ds) ''Hello'') = ''greeting''"
    by code_simp
  have r: "response_map (response_generator ex_ds) ''greeting''
             = Some [''Hello! How can I help you today?'', ''Hi there!'']"
    by code_simp
  have c2: "fst (classify (intent_classifier ex_ds) ''What is your return policy?'')
              \<notin> {''track_order'', ''cancel_item'', ''greeting''}"
    by code_simp
  have h: "retrieve (qa_system ex_ds) ''What is your return policy?'' 1
             = [hit_at ex_qa [0, 0, 9 / 10] 2]"
    by code_simp
  have a: "answer (hit_at ex_qa [0, 0, 9 / 10] 2) = ''You can return items within 30 days.''"
    by (simp add: hit_at_def ex_qa_def)
  have "fst (process_input ex_ds ''t1'' ''t2'' 1 ''Hello'') = Inr ''Hi there!''"
    using process_input_routing[of ex_ds "''Hello''"
        "[''Hello! How can I help you today?'', ''Hi there!'']" "''t1''" "''t2''" 1] c1 r
    by simp
  moreover have "fst (process_input ex_ds ''t1'' ''t2'' 0 ''What is your return policy?'')
        = Inr ''You can return items within 30 days.''"
    using process_input_routing[of ex_ds "''What is your return policy?''" _ "''t1''" "''t2''" 0]
      c2 h a
    by simp
  ultimately show ?thesis by simp
qed

lemma not_understood_nonempty: "not_understood \<noteq> []"
  by (simp add: not_understood_def)

lemma generate_nonempty:
  assumes "case response_map its tg of None \<Rightarrow> True | Some rs \<Rightarrow> rs \<noteq> [] \<and> [] \<notin> set rs"
  shows "\<exists>r. generate its rnd tg [] = Inr r \<and> r \<noteq> []"
proof (cases "response_map its tg")
  case None
  then show ?thesis by (simp add: generate_unregistered not_understood_nonempty)
next
  case (Some rs)
  then have rs: "rs \<noteq> []" "[] \<notin> set rs" using assms by simp_all
  then have "rs ! (rnd mod length rs) \<in> set rs" by simp
  then have "rs ! (rnd mod length rs) \<noteq> []" using rs(2) by metis
  then show ?thesis using generate_registered[OF Some rs(1)] by simp
qed

text \<open>
  Claim C9. The templates registered for \<open>greeting\<close> and for \<open>default\<close>, if any, are
  non-empty lists of non-empty strings, and no answer of the FAQ is empty. Then for every
  input \<open>process_input\<close> returns a non-empty response, the history is the earlier history
  followed by the user's turn and the assistant's turn with that response, the intent
  and the confidence of the classification, and the session context is unchanged.
\<close>

theorem process_input_history:
  assumes "\<forall>tg \<in> {''greeting'', ''default''}.
             case response_map (response_generator ds) tg of
               None \<Rightarrow> True
             | Some rs \<Rightarrow> rs \<noteq> [] \<and> [] \<notin> set rs"
    and "[] \<notin> set (answers (qa_system ds))"
  shows "\<exists>response.
           fst (process_input ds t_user t_assistant rnd user_input) = Inr response
           \<and> response \<noteq> []
           \<and> conversation_history (snd (process_input ds t_user t_assistant rnd user_input))
               = conversation_history ds
                   @ [UserTurn t_user user_input,
                      AssistantTurn t_assistant response
                        (fst (classify (intent_classifier ds) user_input))
                        (snd (classify (intent_classifier ds) user_input))]
           \<and> user_context (snd (process_input ds t_user t_assistant rnd user_input))
               = user_context ds"
proof -
  let ?ds1 = "ds\<lparr>conversation_history := conversation_history ds @ [UserTurn t_user user_input]\<rparr>"
  let ?tg = "fst (classify (intent_classifier ds) user_input)"
  have "\<exists>response ds2. handle_intent ?ds1 rnd ?tg user_input = (Inr response, ds2)
          \<and> response \<noteq> [] \<and> conversation_history ds2 = conversation_history ?ds1
          \<and> user_context ds2 = user_context ds"
  proof -
    consider (track) "?tg = ''track_order''"
      | (cancel) "?tg \<noteq> ''track_order''" "?tg = ''cancel_item''"
      | (greet) "?tg \<noteq> ''track_order''" "?tg \<noteq> ''cancel_item''" "?tg = ''greeting''"
      | (other) "?tg \<noteq> ''track_order''" "?tg \<noteq> ''cancel_item''" "?tg \<noteq> ''greeting''"
      by blast
    then show ?thesis
    proof cases
      case track
      then show ?thesis
        by (simp add: handle_intent_def handle_track_order_nonempty)
    next
      case cancel
      then show ?thesis
        using handle_cancel_item_frame[of ?ds1 user_input]
        by (cases "handle_cancel_item ?ds1 user_input") (simp add: handle_intent_def)
    next
      case greet
      have "case response_map (response_generator ?ds1) ''greeting'' of
              None \<Rightarrow> True | Some rs \<Rightarrow> rs \<noteq> [] \<and> [] \<notin> set rs"
        using assms(1) by simp
      from generate_nonempty[OF this, of rnd] show ?thesis
        using greet by (auto simp: handle_intent_def)
    next
      case other
      show ?thesis
      proof (cases "retrieve (qa_system ?ds1) user_input 1")
        case Nil
        have "case response_map (response_generator ?ds1) ''default'' of
                None \<Rightarrow> True | Some rs \<Rightarrow> rs \<noteq> [] \<and> [] \<notin> set rs"
          using assms(1) by simp
        from generate_nonempty[OF this, of rnd] show ?thesis
          using other Nil by (auto simp: handle_intent_def)
      next
        case (Cons h hs)
        then have "h \<in> set (retrieve (qa_system ?ds1) user_input 1)" by simp
        then have "answer h \<in> set (answers (qa_system ?ds1))" by (rule retrieve_answers)
        then have "answer h \<noteq> []" using assms(2) by auto
        then show ?thesis using other Cons by (simp add: handle_intent_def)
      qed
    qed
  qed
  then obtain response ds2 where h: "handle_intent ?ds1 rnd ?tg user_input = (Inr response, ds2)"
    "response \<noteq> []" "conversation_history ds2 = conversation_history ?ds1"
    "user_context ds2 = user_context ds" by blast
  show ?thesis
    using h by (intro exI[of _ response]) (simp add: process_input_def Let_def)
qed

theorem process_input_history_witness:
  "\<exists>response.
     fst (process_input ex_ds ''t1'' ''t2'' 0 ''Hello'') = Inr response
     \<and> response \<noteq> []
     \<and> conversation_history (snd (process_input ex_ds ''t1'' ''t2'' 0 ''Hello''))
         = conversation_history ex_ds
             @ [UserTurn ''t1'' ''Hello'',
                AssistantTurn ''t2'' response
                  (fst (classify (intent_classifier ex_ds) ''Hello''))
                  (snd (classify (intent_classifier ex_ds) ''Hello''))]
     \<and> user_context (snd (process_input ex_ds ''t1'' ''t2'' 0 ''Hello'')) = user_context ex_ds"
proof -
  have a: "\<forall>tg \<in> {''greeting'', ''default''}.
             case response_map (response_generator ex_ds) tg of
               None \<Rightarrow> True
             | Some rs \<Rightarrow> rs \<noteq> [] \<and> [] \<notin> set rs"
    by code_simp
  have b: "[] \<notin> set (answers (qa_system ex_ds))"
    by code_simp
  show ?thesis by (rule process_input_history[OF a b])
qed

end
